theory Spec2Isabelle
  imports Main "HOL-Library.Word" "HOL-Library.Signed_Division"
begin

unbundle bit_operations_syntax

section \<open>Machine integers of the module\<close>

text \<open>
  The statistics of keydance.c are C \<open>int\<close>s: 32-bit two's complement values. They are
  modelled as \<open>32 word\<close>; \<open>+\<close> wraps around (the kernel is built without strict overflow),
  comparisons with the limits are the signed ones (\<open>\<le>s\<close>, \<open><s\<close>), and the division
  \<open>hits / HITS_PER_LEVEL\<close> is C's division, which truncates towards zero.
\<close>

definition c_div :: "32 word \<Rightarrow> 32 word \<Rightarrow> 32 word" where
  "c_div a b = word_of_int (sint a sdiv sint b)"

definition HITS_PER_LEVEL :: "32 word" where
  "HITS_PER_LEVEL = 10"

definition MISSES_TO_STOP :: "32 word" where
  "MISSES_TO_STOP = 10"

definition LEVEL_TO_STOP :: "32 word" where
  "LEVEL_TO_STOP = 10"

text \<open>
  \<open>step_time\<close>: the delay in jiffies before the next LED pattern,
  \<open>HZ*(20-2*level)/10\<close> in \<open>int\<close> arithmetic. \<open>HZ\<close> is the tick rate of the kernel
  the module is built for; it comes from the kernel configuration, not from this
  repository, and is a parameter here.
\<close>

definition step_time :: "32 word \<Rightarrow> 32 word \<Rightarrow> 32 word" where
  "step_time HZ lvl = c_div (HZ * (20 - 2 * lvl)) 10"

section \<open>The game state and its operations (keydance.c)\<close>

text \<open>
  What the module does to the outside world, in program order: a call
  \<open>i8042_led_blink(state)\<close> and a call \<open>mod_timer(&keydance_timer, jiffies + d)\<close>,
  recorded with its offset \<open>d\<close>.
\<close>

datatype io_event = Led_blink "8 word" | Mod_timer "32 word"

text \<open>
  The static variables of the module: \<open>lock_state\<close> (unsigned char; bit 0 scroll lock,
  bit 1 num lock, bit 2 caps lock), \<open>game_running\<close>, \<open>extras\<close>, \<open>misses\<close>, \<open>hits\<close>
  and \<open>level\<close>. The field \<open>io\<close> is the log of the calls made so far.
\<close>

record game =
  lock_state :: "8 word"
  game_running :: bool
  extras :: "32 word"
  misses :: "32 word"
  hits :: "32 word"
  level :: "32 word"
  io :: "io_event list"

text \<open>Static storage is zero-initialised; \<open>game_running\<close> is initialised to false.\<close>

definition init_state :: game where
  "init_state = \<lparr>lock_state = 0, game_running = False, extras = 0, misses = 0,
     hits = 0, level = 0, io = []\<rparr>"

text \<open>The label \<open>stop:\<close> of \<open>keydance_timerfn\<close>.\<close>

definition stop :: "game \<Rightarrow> game" where
  "stop s = s\<lparr>game_running := False, io := io s @ [Led_blink 0]\<rparr>"

text \<open>
  The tail of \<open>keydance_timerfn\<close> when the game goes on: \<open>extras = 0\<close>, the LEDs are
  set to the new state and the timer is armed again.
\<close>

definition rearm :: "32 word \<Rightarrow> game \<Rightarrow> game" where
  "rearm HZ s = s\<lparr>extras := 0,
     io := io s @ [Led_blink (lock_state s), Mod_timer (step_time HZ (level s))]\<rparr>"

text \<open>
  \<open>keydance_timerfn\<close>. The byte that \<open>get_random_bytes\<close> stores into \<open>lock_state\<close> is
  the argument \<open>rnd\<close>.
\<close>

definition keydance_timerfn :: "32 word \<Rightarrow> 8 word \<Rightarrow> game \<Rightarrow> game" where
  "keydance_timerfn HZ rnd s =
     (if \<not> game_running s then stop s
      else
        let old_state = lock_state s;
            s1 = s\<lparr>lock_state := rnd AND 7\<rparr>
        in if old_state \<noteq> 0 \<or> extras s1 \<noteq> 0 then
             (let s2 = s1\<lparr>misses := misses s1 + 1\<rparr>
              in if MISSES_TO_STOP \<le>s misses s2 then stop s2 else rearm HZ s2)
           else
             (let s2 = s1\<lparr>hits := hits s1 + 1\<rparr>;
                  s3 = s2\<lparr>level := c_div (hits s2) HITS_PER_LEVEL\<rparr>
              in if LEVEL_TO_STOP \<le>s level s3 then stop s3 else rearm HZ s3))"

text \<open>
  \<open>write_keydance_start\<close>: the write method of /proc/keydance-start. It returns
  \<open>count\<close> and the new state.
\<close>

definition write_keydance_start :: "32 word \<Rightarrow> 64 word \<Rightarrow> game \<Rightarrow> 64 word \<times> game" where
  "write_keydance_start HZ count s =
     (if \<not> game_running s \<and> count \<noteq> 0 then
        (count, \<lparr>lock_state = 0, game_running = True, extras = 0, misses = 0,
           hits = 0, level = 0,
           io = io s @ [Led_blink 0, Mod_timer (step_time HZ 0)]\<rparr>)
      else (count, s))"

text \<open>
  The scancode table and the search loop of \<open>keydance_threadfn\<close>:
  \<open>for (i=0; i<3; i++) if (scancode == dancekey_scancode_table[i]) break;\<close>
  The result is the value of \<open>i\<close> after the loop.
\<close>

definition dancekey_scancode_table :: "8 word list" where
  "dancekey_scancode_table = [4, 2, 3]"

function find_scancode :: "8 word \<Rightarrow> nat \<Rightarrow> nat" where
  "find_scancode scancode i =
     (if i < 3 then
        (if scancode = dancekey_scancode_table ! i then i
         else find_scancode scancode (i + 1))
      else i)"
  by pat_completeness auto
termination
  by (relation "measure (\<lambda>(scancode, i). 3 - i)") auto

text \<open>
  \<open>keydance_threadfn\<close>, the IRQ thread. The byte read from the data port by
  \<open>i8042_read_data\<close> is the argument \<open>data\<close>; it is read only when a game is running.
  The handler returns \<open>IRQ_HANDLED\<close> on every path.
\<close>

definition keydance_threadfn :: "8 word \<Rightarrow> game \<Rightarrow> game" where
  "keydance_threadfn data s =
     (if \<not> game_running s then s
      else
        let scancode = data;
            i = find_scancode scancode 0
        in if i < 3 then
             (if lock_state s AND push_bit i 1 \<noteq> 0 then
                (let s1 = s\<lparr>lock_state := lock_state s AND NOT (push_bit i 1)\<rparr>
                 in s1\<lparr>io := io s1 @ [Led_blink (lock_state s1)]\<rparr>)
              else s\<lparr>extras := extras s + 1\<rparr>)
           else s)"

text \<open>
  \<open>keydance_interrupt\<close>, the hard interrupt handler: it only decides whether the IRQ
  thread is woken.
\<close>

datatype irqreturn = IRQ_NONE | IRQ_HANDLED | IRQ_WAKE_THREAD

definition keydance_interrupt :: "game \<Rightarrow> irqreturn" where
  "keydance_interrupt s = (if \<not> game_running s then IRQ_NONE else IRQ_WAKE_THREAD)"

section \<open>Runs of the module\<close>

text \<open>
  The contexts that change the state: a write to the start file, an expiry of the timer
  (with the random byte it draws) and a run of the IRQ thread (with the byte it reads
  from the keyboard controller). Each runs to completion before the next one starts.
  A read of the result file changes nothing. Loading the module (\<open>keydance_init\<close>,
  which flashes the LEDs and leaves the variables at their initial values) comes before
  a run, unloading it (\<open>keydance_exit\<close>) ends it.
\<close>

datatype event = Start "64 word" | Tick "8 word" | Key "8 word"

fun step :: "32 word \<Rightarrow> event \<Rightarrow> game \<Rightarrow> game" where
  "step HZ (Start count) s = snd (write_keydance_start HZ count s)"
| "step HZ (Tick rnd) s = keydance_timerfn HZ rnd s"
| "step HZ (Key data) s = keydance_threadfn data s"

fun run :: "32 word \<Rightarrow> event list \<Rightarrow> game \<Rightarrow> game" where
  "run HZ [] s = s"
| "run HZ (e # es) s = run HZ es (step HZ e s)"

inductive reachable :: "32 word \<Rightarrow> game \<Rightarrow> bool" for HZ :: "32 word" where
  reachable_init: "reachable HZ init_state"
| reachable_step: "reachable HZ s \<Longrightarrow> reachable HZ (step HZ e s)"

text \<open>Consecutive expiries of the timer with nothing in between.\<close>

fun ticks :: "32 word \<Rightarrow> 8 word list \<Rightarrow> game \<Rightarrow> game" where
  "ticks HZ [] s = s"
| "ticks HZ (rnd # rnds) s = ticks HZ rnds (keydance_timerfn HZ rnd s)"

text \<open>
  Two properties of a state: the level is the one computed from the hits, and a running
  game is below both limits.
\<close>

definition level_ok :: "game \<Rightarrow> bool" where
  "level_ok s \<longleftrightarrow> level s = c_div (hits s) HITS_PER_LEVEL"

definition below_limits :: "game \<Rightarrow> bool" where
  "below_limits s \<longleftrightarrow>
     (game_running s \<longrightarrow> misses s <s MISSES_TO_STOP \<and> level s <s LEVEL_TO_STOP)"

definition misses_in_range :: "game \<Rightarrow> bool" where
  "misses_in_range s \<longleftrightarrow> 0 \<le>s misses s \<and> misses s \<le>s MISSES_TO_STOP"

section \<open>The keyboard controller (i8042.h)\<close>

text \<open>
  The macro \<open>DELAY\<close>: \<open>mdelay(1); if (++delay > 10) return delay;\<close>. \<open>Inl r\<close> is the
  return of \<open>r\<close> from the enclosing function, \<open>Inr d\<close> goes on with \<open>delay = d\<close>.
  The local \<open>long delay\<close> starts at 0 and is compared with 10 after every increment, so
  it is far from the range where a \<open>long\<close> wraps; it is an \<open>int\<close> here.
\<close>

definition DELAY :: "int \<Rightarrow> int + int" where
  "DELAY delay = (if delay + 1 > 10 then Inl (delay + 1) else Inr (delay + 1))"

text \<open>
  The loop \<open>while (i8042_read_status() & I8042_STR_IBF) DELAY;\<close> with the macro
  expanded. The device is the function \<open>status\<close>: \<open>status n\<close> is what the \<open>n\<close>-th read
  of the status register returns, for any device whatsoever. \<open>n\<close> counts the reads done
  so far. The mask \<open>I8042_STR_IBF\<close> comes from the kernel's headers and is the
  parameter \<open>ibf\<close>. The result is \<open>Inl (r, n)\<close> when the function returns \<open>r\<close> from
  inside the loop and \<open>Inr (delay, n)\<close> when the loop is left.
\<close>

function wait_ibf :: "8 word \<Rightarrow> (nat \<Rightarrow> 8 word) \<Rightarrow> int \<Rightarrow> nat \<Rightarrow> int \<times> nat + int \<times> nat" where
  "wait_ibf ibf status delay n =
     (if status n AND ibf \<noteq> 0 then
        (if delay + 1 > 10 then Inl (delay + 1, n + 1)
         else wait_ibf ibf status (delay + 1) (n + 1))
      else Inr (delay, n + 1))"
  by pat_completeness auto
termination
  by (relation "measure (\<lambda>(ibf, status, delay, n). nat (10 - delay))") auto

text \<open>
  \<open>i8042_led_blink\<close>: what it returns, how many times it has read the status register
  and the bytes it has written to the data port.
\<close>

record blink =
  elapsed :: int
  reads :: nat
  written :: "8 word list"

definition i8042_led_blink :: "8 word \<Rightarrow> (nat \<Rightarrow> 8 word) \<Rightarrow> 8 word \<Rightarrow> blink" where
  "i8042_led_blink ibf status state =
     (case wait_ibf ibf status 0 0 of
        Inl (r, n) \<Rightarrow> \<lparr>elapsed = r, reads = n, written = []\<rparr>
      | Inr (d1, n1) \<Rightarrow>
     (case DELAY d1 of
        Inl r \<Rightarrow> \<lparr>elapsed = r, reads = n1, written = [0xed]\<rparr>
      | Inr d2 \<Rightarrow>
     (case wait_ibf ibf status d2 n1 of
        Inl (r, n) \<Rightarrow> \<lparr>elapsed = r, reads = n, written = [0xed]\<rparr>
      | Inr (d3, n2) \<Rightarrow>
     (case DELAY d3 of
        Inl r \<Rightarrow> \<lparr>elapsed = r, reads = n2, written = [0xed]\<rparr>
      | Inr d4 \<Rightarrow>
     (case DELAY d4 of
        Inl r \<Rightarrow> \<lparr>elapsed = r, reads = n2, written = [0xed, state]\<rparr>
      | Inr d5 \<Rightarrow> \<lparr>elapsed = d5, reads = n2, written = [0xed, state]\<rparr>)))))"

section \<open>The lock discipline\<close>

text \<open>
  The accesses a function makes to the six static variables and to \<open>keydance_lock\<close>,
  in program order, on the path it takes from state \<open>s\<close>. \<open>Spin_lock\<close> stands for
  \<open>spin_lock\<close> and \<open>spin_lock_irq\<close>, \<open>Spin_unlock\<close> for \<open>spin_unlock\<close> and
  \<open>spin_unlock_irq\<close>.
\<close>

datatype var = V_lock_state | V_game_running | V_extras | V_misses | V_hits | V_level

datatype access = Spin_lock | Spin_unlock | Rd var | Wr var

text \<open>The label \<open>stop:\<close> and the tail of \<open>keydance_timerfn\<close> after the outcome.\<close>

definition stop_accesses :: "access list" where
  "stop_accesses = [Wr V_game_running, Spin_unlock]"

definition rearm_accesses :: "access list" where
  "rearm_accesses = [Wr V_extras, Rd V_lock_state, Rd V_level, Spin_unlock]"

definition keydance_timerfn_accesses :: "game \<Rightarrow> access list" where
  "keydance_timerfn_accesses s =
     [Spin_lock, Rd V_game_running] @
     (if \<not> game_running s then stop_accesses
      else
        [Rd V_lock_state, Wr V_lock_state, Rd V_lock_state, Wr V_lock_state] @
        (if lock_state s \<noteq> 0 then [] else [Rd V_extras]) @
        (if lock_state s \<noteq> 0 \<or> extras s \<noteq> 0 then
           [Rd V_misses, Wr V_misses, Rd V_misses] @
           (if MISSES_TO_STOP \<le>s misses s + 1 then stop_accesses else rearm_accesses)
         else
           [Rd V_hits, Wr V_hits, Rd V_hits, Wr V_level, Rd V_level] @
           (if LEVEL_TO_STOP \<le>s c_div (hits s + 1) HITS_PER_LEVEL
            then stop_accesses else rearm_accesses)))"

definition keydance_threadfn_accesses :: "8 word \<Rightarrow> game \<Rightarrow> access list" where
  "keydance_threadfn_accesses data s =
     [Spin_lock, Rd V_game_running] @
     (if \<not> game_running s then [Spin_unlock]
      else
        (let i = find_scancode data 0
         in if i < 3 then
              Rd V_lock_state #
              (if lock_state s AND push_bit i 1 \<noteq> 0
               then [Rd V_lock_state, Wr V_lock_state, Rd V_lock_state]
               else [Rd V_extras, Wr V_extras])
            else []) @
        [Spin_unlock])"

definition write_keydance_start_accesses :: "64 word \<Rightarrow> game \<Rightarrow> access list" where
  "write_keydance_start_accesses count s =
     Rd V_game_running #
     (if \<not> game_running s \<and> count \<noteq> 0 then
        [Wr V_lock_state, Rd V_lock_state, Wr V_extras, Wr V_misses, Wr V_hits, Wr V_level,
         Wr V_game_running, Rd V_level]
      else [])"

definition keydance_result_proc_show_accesses :: "game \<Rightarrow> access list" where
  "keydance_result_proc_show_accesses s =
     [Rd V_game_running, Rd V_level, Rd V_level, Rd V_hits, Rd V_misses]"

text \<open>
  \<open>under_lock held as\<close>: every read and write in \<open>as\<close> happens while the lock is held,
  when \<open>held\<close> says whether it is held at the start.
\<close>

fun under_lock :: "bool \<Rightarrow> access list \<Rightarrow> bool" where
  "under_lock held [] = True"
| "under_lock held (Spin_lock # as) = under_lock True as"
| "under_lock held (Spin_unlock # as) = under_lock False as"
| "under_lock held (Rd v # as) = (held \<and> under_lock held as)"
| "under_lock held (Wr v # as) = (held \<and> under_lock held as)"

section \<open>Frame properties of the handlers\<close>

text \<open>
  C6. Starting a game while one is running changes nothing: a write to the start file
  in a state with \<open>game_running\<close> leaves \<open>lock_state\<close>, \<open>game_running\<close>, \<open>extras\<close>,
  \<open>hits\<close>, \<open>misses\<close> and \<open>level\<close> (and the log of device calls) as they were, and
  returns the full \<open>count\<close>.
\<close>

theorem start_while_running_is_noop:
  "game_running s \<Longrightarrow> write_keydance_start HZ count s = (count, s)"
  by (simp add: write_keydance_start_def)

theorem start_while_running_is_noop_witness:
  "game_running (snd (write_keydance_start 100 1 init_state)) \<and>
   write_keydance_start 100 5 (snd (write_keydance_start 100 1 init_state))
     = (5, snd (write_keydance_start 100 1 init_state))"
  using start_while_running_is_noop [of "snd (write_keydance_start 100 1 init_state)" 100 5]
  by (simp add: write_keydance_start_def init_state_def)

text \<open>
  C7. When the IRQ thread runs while no game is running, it does nothing: the state,
  that is \<open>lock_state\<close>, \<open>extras\<close>, \<open>hits\<close>, \<open>misses\<close>, \<open>level\<close> and \<open>game_running\<close>,
  is unchanged, and so is the log of device calls (no LED command is issued). The test
  of \<open>game_running\<close> is the first thing the handler does after taking the lock.
\<close>

theorem threadfn_when_stopped_is_noop:
  "\<not> game_running s \<Longrightarrow> keydance_threadfn data s = s"
  by (simp add: keydance_threadfn_def)

theorem threadfn_when_stopped_is_noop_witness:
  "\<not> game_running init_state \<and> keydance_threadfn 4 init_state = init_state"
  using threadfn_when_stopped_is_noop [of init_state 4]
  by (simp add: init_state_def)

section \<open>Key presses\<close>

declare find_scancode.simps [simp del]

lemma find_scancode_0:
  "find_scancode sc 0 = (if sc = 4 then 0 else if sc = 2 then 1 else if sc = 3 then 2 else 3)"
  by (simp add: find_scancode.simps [of _ 0] find_scancode.simps [of _ "Suc 0"]
      find_scancode.simps [of _ "Suc (Suc 0)"] find_scancode.simps [of _ "Suc (Suc (Suc 0))"]
      find_scancode.simps [of _ 2] find_scancode.simps [of _ 3]
      dancekey_scancode_table_def)

lemma find_scancode_unmapped:
  "sc \<notin> set dancekey_scancode_table \<Longrightarrow> find_scancode sc 0 = 3"
  by (simp add: find_scancode_0 dancekey_scancode_table_def)

lemma find_scancode_mapped:
  "i < 3 \<Longrightarrow> find_scancode (dancekey_scancode_table ! i) 0 = i"
  by (auto simp add: find_scancode_0 dancekey_scancode_table_def less_Suc_eq numeral_3_eq_3)

lemma threadfn_unmapped:
  "game_running s \<Longrightarrow> data \<notin> set dancekey_scancode_table \<Longrightarrow> keydance_threadfn data s = s"
  by (simp add: keydance_threadfn_def find_scancode_unmapped)

lemma threadfn_mapped:
  "game_running s \<Longrightarrow> i < 3 \<Longrightarrow>
   keydance_threadfn (dancekey_scancode_table ! i) s =
     (if lock_state s AND push_bit i 1 \<noteq> 0
      then s\<lparr>lock_state := lock_state s AND NOT (push_bit i 1),
             io := io s @ [Led_blink (lock_state s AND NOT (push_bit i 1))]\<rparr>
      else s\<lparr>extras := extras s + 1\<rparr>)"
  by (simp add: keydance_threadfn_def find_scancode_mapped Let_def)

text \<open>
  C2, as the claim states it, fails: during a running game a scancode that is not in
  \<open>dancekey_scancode_table\<close> (here 30, the key A) does not increment \<open>extras\<close>. The
  increment sits inside the branch \<open>if (i<3)\<close>, which has no \<open>else\<close>.
\<close>

theorem unmapped_key_counterexample:
  "game_running (run 100 [Start 1, Tick 3] init_state) \<and>
   30 \<notin> set dancekey_scancode_table \<and>
   extras (keydance_threadfn 30 (run 100 [Start 1, Tick 3] init_state))
     \<noteq> extras (run 100 [Start 1, Tick 3] init_state) + 1"
  by code_simp

text \<open>
  C2, amended. During a running game a scancode that is not in the table leaves the
  whole state unchanged: no extra press is counted. \<open>extras\<close> is incremented, and
  nothing else changes, when the scancode is the one of table entry \<open>i\<close> and bit \<open>i\<close>
  of \<open>lock_state\<close> is already clear; when that bit is set, \<open>extras\<close> stays as it is.
\<close>

theorem threadfn_counts_only_mapped_keys:
  assumes "game_running s"
  shows "(data \<notin> set dancekey_scancode_table \<longrightarrow> keydance_threadfn data s = s) \<and>
         (\<forall>i<3. lock_state s AND push_bit i 1 = 0 \<longrightarrow>
            keydance_threadfn (dancekey_scancode_table ! i) s = s\<lparr>extras := extras s + 1\<rparr>) \<and>
         (\<forall>i<3. lock_state s AND push_bit i 1 \<noteq> 0 \<longrightarrow>
            extras (keydance_threadfn (dancekey_scancode_table ! i) s) = extras s)"
  using assms by (simp add: threadfn_unmapped threadfn_mapped)

theorem threadfn_counts_only_mapped_keys_witness:
  "game_running (run 100 [Start 1, Tick 3] init_state) \<and>
   30 \<notin> set dancekey_scancode_table \<and>
   keydance_threadfn 30 (run 100 [Start 1, Tick 3] init_state)
     = run 100 [Start 1, Tick 3] init_state \<and>
   (2::nat) < 3 \<and>
   lock_state (run 100 [Start 1, Tick 3] init_state) AND push_bit (2::nat) 1 = 0 \<and>
   keydance_threadfn (dancekey_scancode_table ! 2) (run 100 [Start 1, Tick 3] init_state)
     = (run 100 [Start 1, Tick 3] init_state)
         \<lparr>extras := extras (run 100 [Start 1, Tick 3] init_state) + 1\<rparr>"
proof -
  have running: "game_running (run 100 [Start 1, Tick 3] init_state)"
    by code_simp
  have unmapped: "30 \<notin> set dancekey_scancode_table"
    by code_simp
  have clear: "lock_state (run 100 [Start 1, Tick 3] init_state) AND push_bit (2::nat) 1 = 0"
    by code_simp
  show ?thesis
    using threadfn_counts_only_mapped_keys [OF running, of 30] unmapped clear running
    by simp
qed

section \<open>The timer function, case by case\<close>

lemma timerfn_stopped: "\<not> game_running s \<Longrightarrow> keydance_timerfn HZ rnd s = stop s"
  by (simp add: keydance_timerfn_def)

lemma timerfn_miss:
  "game_running s \<Longrightarrow> lock_state s \<noteq> 0 \<or> extras s \<noteq> 0 \<Longrightarrow>
   keydance_timerfn HZ rnd s =
     (if MISSES_TO_STOP \<le>s misses s + 1
      then stop (s\<lparr>lock_state := rnd AND 7, misses := misses s + 1\<rparr>)
      else rearm HZ (s\<lparr>lock_state := rnd AND 7, misses := misses s + 1\<rparr>))"
  by (simp add: keydance_timerfn_def Let_def)

lemma timerfn_hit:
  "game_running s \<Longrightarrow> lock_state s = 0 \<Longrightarrow> extras s = 0 \<Longrightarrow>
   keydance_timerfn HZ rnd s =
     (if LEVEL_TO_STOP \<le>s c_div (hits s + 1) HITS_PER_LEVEL
      then stop (s\<lparr>lock_state := rnd AND 7, hits := hits s + 1,
                   level := c_div (hits s + 1) HITS_PER_LEVEL\<rparr>)
      else rearm HZ (s\<lparr>lock_state := rnd AND 7, hits := hits s + 1,
                   level := c_div (hits s + 1) HITS_PER_LEVEL\<rparr>))"
  by (simp add: keydance_timerfn_def Let_def)

lemma timerfn_cases:
  obtains (stopped) "\<not> game_running s"
  | (miss) "game_running s" "lock_state s \<noteq> 0 \<or> extras s \<noteq> 0"
  | (hit) "game_running s" "lock_state s = 0" "extras s = 0"
  by blast

lemma threadfn_counters:
  "misses (keydance_threadfn data s) = misses s"
  "hits (keydance_threadfn data s) = hits s"
  "level (keydance_threadfn data s) = level s"
  "game_running (keydance_threadfn data s) = game_running s"
  by (simp_all add: keydance_threadfn_def Let_def)

lemma not_sle_iff: "\<not> (a \<le>s b) \<longleftrightarrow> b <s a"
  by (simp add: word_sle_eq word_sless_alt not_le)

section \<open>Invariants of the reachable states\<close>

lemma reachable_run: "reachable HZ s \<Longrightarrow> reachable HZ (run HZ es s)"
  by (induction es arbitrary: s) (simp_all add: reachable_step)

lemma reachable_run_init: "reachable HZ (run HZ es init_state)"
  by (rule reachable_run [OF reachable_init])

lemma level_ok_timerfn: "level_ok s \<Longrightarrow> level_ok (keydance_timerfn HZ rnd s)"
  by (cases s rule: timerfn_cases)
     (simp_all add: timerfn_stopped timerfn_miss timerfn_hit level_ok_def stop_def rearm_def)

lemma level_ok_start: "level_ok s \<Longrightarrow> level_ok (snd (write_keydance_start HZ count s))"
  by (simp add: write_keydance_start_def level_ok_def c_div_def)

lemma level_ok_step: "level_ok s \<Longrightarrow> level_ok (step HZ e s)"
  by (cases e)
     (simp_all add: level_ok_timerfn level_ok_start, simp add: level_ok_def threadfn_counters)

lemma level_ok_reachable: "reachable HZ s \<Longrightarrow> level_ok s"
  by (induction rule: reachable.induct)
     (simp_all add: level_ok_step, simp add: level_ok_def init_state_def c_div_def)

lemma below_limits_timerfn: "below_limits s \<Longrightarrow> below_limits (keydance_timerfn HZ rnd s)"
  by (cases s rule: timerfn_cases)
     (simp_all add: timerfn_stopped timerfn_miss timerfn_hit below_limits_def stop_def
        rearm_def not_sle_iff)

lemma below_limits_start:
  "below_limits s \<Longrightarrow> below_limits (snd (write_keydance_start HZ count s))"
  by (simp add: write_keydance_start_def below_limits_def MISSES_TO_STOP_def LEVEL_TO_STOP_def
      word_sless_alt)

lemma below_limits_step: "below_limits s \<Longrightarrow> below_limits (step HZ e s)"
  by (cases e)
     (simp_all add: below_limits_timerfn below_limits_start,
      simp add: below_limits_def threadfn_counters)

lemma below_limits_reachable: "reachable HZ s \<Longrightarrow> below_limits s"
  by (induction rule: reachable.induct)
     (simp_all add: below_limits_step, simp add: below_limits_def init_state_def)

text \<open>
  C10. In every reachable state a running game has \<open>misses < MISSES_TO_STOP\<close> and
  \<open>level < LEVEL_TO_STOP\<close>. The start write, the timer function and the IRQ thread all
  preserve this (lemma \<open>below_limits_step\<close>): the timer function stops the game in the
  same call in which a counter reaches its limit, and the start write sets both to 0.
\<close>

theorem running_below_limits:
  "reachable HZ s \<Longrightarrow> game_running s \<Longrightarrow>
   misses s <s MISSES_TO_STOP \<and> level s <s LEVEL_TO_STOP"
  using below_limits_reachable [of HZ s] by (simp add: below_limits_def)

theorem running_below_limits_witness:
  "reachable 100 (run 100 [Start 1, Tick 3, Key 4, Tick 6] init_state) \<and>
   game_running (run 100 [Start 1, Tick 3, Key 4, Tick 6] init_state) \<and>
   misses (run 100 [Start 1, Tick 3, Key 4, Tick 6] init_state) <s MISSES_TO_STOP \<and>
   level (run 100 [Start 1, Tick 3, Key 4, Tick 6] init_state) <s LEVEL_TO_STOP"
proof -
  have r: "reachable 100 (run 100 [Start 1, Tick 3, Key 4, Tick 6] init_state)"
    by (rule reachable_run_init)
  have g: "game_running (run 100 [Start 1, Tick 3, Key 4, Tick 6] init_state)"
    by code_simp
  from running_below_limits [OF r g] r g show ?thesis by blast
qed

section \<open>The outcome of a round\<close>

text \<open>
  C1. A timer expiry that finds a game running saves the old \<open>lock_state\<close>, draws the
  new one, and decides from the saved state. If the old pattern is not 0 or \<open>extras\<close>
  is not 0 (\<open>extras\<close> is a count of presses, so not 0 is what more than 0 means; the C
  test is \<open>old_state || extras\<close>), \<open>misses\<close> goes up by exactly 1, and when it has
  reached \<open>MISSES_TO_STOP\<close> the game stops: \<open>game_running\<close> is false and the one device
  call made is \<open>i8042_led_blink(0)\<close>. Otherwise \<open>hits\<close> goes up by exactly 1, \<open>level\<close>
  becomes \<open>hits / HITS_PER_LEVEL\<close>, and when it has reached \<open>LEVEL_TO_STOP\<close> the game
  stops the same way. After the expiry \<open>level = hits / HITS_PER_LEVEL\<close> in either case.
\<close>

theorem tick_outcome:
  assumes "reachable HZ s" and "game_running s"
  shows "let s' = keydance_timerfn HZ rnd s in
     (lock_state s \<noteq> 0 \<or> extras s \<noteq> 0 \<longrightarrow>
        misses s' = misses s + 1 \<and> hits s' = hits s \<and> level s' = level s \<and>
        (if MISSES_TO_STOP \<le>s misses s'
         then \<not> game_running s' \<and> io s' = io s @ [Led_blink 0]
         else game_running s')) \<and>
     (\<not> (lock_state s \<noteq> 0 \<or> extras s \<noteq> 0) \<longrightarrow>
        hits s' = hits s + 1 \<and> misses s' = misses s \<and>
        level s' = c_div (hits s') HITS_PER_LEVEL \<and>
        (if LEVEL_TO_STOP \<le>s level s'
         then \<not> game_running s' \<and> io s' = io s @ [Led_blink 0]
         else game_running s')) \<and>
     level s' = c_div (hits s') HITS_PER_LEVEL"
proof -
  have ok: "level s = c_div (hits s) HITS_PER_LEVEL"
    using level_ok_reachable [OF assms(1)] by (simp add: level_ok_def)
  have miss: "lock_state s \<noteq> 0 \<or> extras s \<noteq> 0 \<Longrightarrow> ?thesis"
    using assms(2) ok by (simp add: timerfn_miss stop_def rearm_def Let_def)
  have hit: "\<not> (lock_state s \<noteq> 0 \<or> extras s \<noteq> 0) \<Longrightarrow> ?thesis"
    using assms(2) by (simp add: timerfn_hit stop_def rearm_def Let_def)
  from miss hit show ?thesis by blast
qed

theorem tick_outcome_witness:
  "reachable 100 (run 100 [Start 1, Tick 3] init_state) \<and>
   game_running (run 100 [Start 1, Tick 3] init_state) \<and>
   lock_state (run 100 [Start 1, Tick 3] init_state) \<noteq> 0 \<and>
   misses (keydance_timerfn 100 5 (run 100 [Start 1, Tick 3] init_state))
     = misses (run 100 [Start 1, Tick 3] init_state) + 1 \<and>
   reachable 100 (run 100 [Start 1] init_state) \<and>
   game_running (run 100 [Start 1] init_state) \<and>
   \<not> (lock_state (run 100 [Start 1] init_state) \<noteq> 0 \<or>
      extras (run 100 [Start 1] init_state) \<noteq> 0) \<and>
   hits (keydance_timerfn 100 5 (run 100 [Start 1] init_state))
     = hits (run 100 [Start 1] init_state) + 1 \<and>
   level (keydance_timerfn 100 5 (run 100 [Start 1] init_state))
     = c_div (hits (keydance_timerfn 100 5 (run 100 [Start 1] init_state))) HITS_PER_LEVEL"
proof -
  have ra: "reachable 100 (run 100 [Start 1, Tick 3] init_state)"
    by (rule reachable_run_init)
  have ga: "game_running (run 100 [Start 1, Tick 3] init_state)"
    by code_simp
  have ca: "lock_state (run 100 [Start 1, Tick 3] init_state) \<noteq> 0"
    by code_simp
  have rb: "reachable 100 (run 100 [Start 1] init_state)"
    by (rule reachable_run_init)
  have gb: "game_running (run 100 [Start 1] init_state)"
    by code_simp
  have cb: "\<not> (lock_state (run 100 [Start 1] init_state) \<noteq> 0 \<or>
               extras (run 100 [Start 1] init_state) \<noteq> 0)"
    by code_simp
  have a: "misses (keydance_timerfn 100 5 (run 100 [Start 1, Tick 3] init_state))
     = misses (run 100 [Start 1, Tick 3] init_state) + 1"
    using tick_outcome [OF ra ga, of 5] ca unfolding Let_def by blast
  have b: "hits (keydance_timerfn 100 5 (run 100 [Start 1] init_state))
     = hits (run 100 [Start 1] init_state) + 1 \<and>
   level (keydance_timerfn 100 5 (run 100 [Start 1] init_state))
     = c_div (hits (keydance_timerfn 100 5 (run 100 [Start 1] init_state))) HITS_PER_LEVEL"
    using tick_outcome [OF rb gb, of 5] cb unfolding Let_def by blast
  from ra ga ca rb gb cb a b show ?thesis by blast
qed

section \<open>The state after the game has stopped\<close>

lemma stopping_tick_state:
  "game_running s \<Longrightarrow> \<not> game_running (keydance_timerfn HZ rnd s) \<Longrightarrow>
   lock_state (keydance_timerfn HZ rnd s) = rnd AND 7 \<and>
   io (keydance_timerfn HZ rnd s) = io s @ [Led_blink 0]"
  by (cases s rule: timerfn_cases)
     (auto simp add: timerfn_miss timerfn_hit stop_def rearm_def split: if_splits)

text \<open>
  C3. The claim fails on the code. A game is started, the first expiry draws pattern 1,
  and ten more expiries find it uncleared; the tenth miss stops the game. The timer
  function has already stored the newly drawn pattern in \<open>lock_state\<close> when it jumps to
  \<open>stop\<close>, and \<open>stop\<close> switches the LEDs off without clearing \<open>lock_state\<close>: the state
  is reachable, \<open>game_running\<close> is false and \<open>lock_state\<close> is 1.
\<close>

theorem stop_keeps_drawn_pattern:
  "\<not> game_running (run 100 (Start 1 # replicate 11 (Tick 1)) init_state) \<and>
   lock_state (run 100 (Start 1 # replicate 11 (Tick 1)) init_state) = 1 \<and>
   last (io (run 100 (Start 1 # replicate 11 (Tick 1)) init_state)) = Led_blink 0"
  by code_simp

section \<open>Rounds without key presses\<close>

lemma ticks_stopped:
  "\<not> game_running s \<Longrightarrow>
   \<not> game_running (ticks HZ rnds s) \<and> lock_state (ticks HZ rnds s) = lock_state s \<and>
   misses (ticks HZ rnds s) = misses s \<and> hits (ticks HZ rnds s) = hits s \<and>
   level (ticks HZ rnds s) = level s"
  by (induction rnds arbitrary: s) (simp_all add: timerfn_stopped stop_def)

lemma sint_succ:
  fixes x :: "32 word"
  assumes "sint x < 10"
  shows "sint (x + 1) = sint x + 1"
proof -
  have "- (2 ^ 31) \<le> sint x"
    using sint_ge [of x] by simp
  with assms show ?thesis
    by (simp add: sint_word_ariths signed_take_bit_int_eq_self)
qed

lemma sint_eq_9:
  fixes x :: "32 word"
  assumes "sint x = 9"
  shows "x = 9"
proof -
  have "word_of_int (sint x) = x" by simp
  with assms show ?thesis by simp
qed

lemma misses_in_range_timerfn:
  "below_limits s \<Longrightarrow> misses_in_range s \<Longrightarrow> misses_in_range (keydance_timerfn HZ rnd s)"
  by (cases s rule: timerfn_cases)
     (simp_all add: timerfn_stopped timerfn_miss timerfn_hit misses_in_range_def below_limits_def
        stop_def rearm_def word_sle_eq word_sless_alt MISSES_TO_STOP_def sint_succ)

lemma misses_in_range_start:
  "misses_in_range s \<Longrightarrow> misses_in_range (snd (write_keydance_start HZ count s))"
  by (simp add: write_keydance_start_def misses_in_range_def MISSES_TO_STOP_def word_sle_eq)

lemma misses_in_range_step:
  "below_limits s \<Longrightarrow> misses_in_range s \<Longrightarrow> misses_in_range (step HZ e s)"
  by (cases e)
     (simp_all add: misses_in_range_timerfn misses_in_range_start,
      simp add: misses_in_range_def threadfn_counters)

lemma misses_in_range_reachable: "reachable HZ s \<Longrightarrow> misses_in_range s"
  by (induction rule: reachable.induct)
     (simp add: misses_in_range_def init_state_def MISSES_TO_STOP_def word_sle_eq,
      simp add: misses_in_range_step below_limits_reachable)

lemma ticks_misses_core:
  assumes "game_running s" and "0 \<le> sint (misses s)" and "sint (misses s) < 10"
    and "lock_state s \<noteq> 0 \<or> extras s \<noteq> 0" and "\<forall>r\<in>set rnds. r AND 7 \<noteq> 0"
  shows "(int (length rnds) < 10 - sint (misses s) \<longrightarrow>
            game_running (ticks HZ rnds s) \<and>
            misses (ticks HZ rnds s) = misses s + of_nat (length rnds)) \<and>
         (10 - sint (misses s) \<le> int (length rnds) \<longrightarrow>
            \<not> game_running (ticks HZ rnds s) \<and> misses (ticks HZ rnds s) = 10 \<and>
            lock_state (ticks HZ rnds s)
              = lock_state (ticks HZ (take (nat (10 - sint (misses s))) rnds) s))"
  using assms
proof (induction rnds arbitrary: s)
  case Nil
  then show ?case by simp
next
  case (Cons r rs)
  let ?t = "keydance_timerfn HZ r s"
  have sm: "sint (misses s + 1) = sint (misses s) + 1"
    using Cons.prems(3) by (rule sint_succ)
  show ?case
  proof (cases "sint (misses s) = 9")
    case True
    then have m9: "misses s = 9" by (rule sint_eq_9)
    have t: "?t = stop (s\<lparr>lock_state := r AND 7, misses := 10\<rparr>)"
      using Cons.prems(1,4) m9 by (simp add: timerfn_miss MISSES_TO_STOP_def)
    have nr: "\<not> game_running ?t" by (simp add: t stop_def)
    have tk: "take (nat (10 - sint (misses s))) (r # rs) = [r]"
      using True by simp
    have "\<not> game_running (ticks HZ rs ?t) \<and> lock_state (ticks HZ rs ?t) = lock_state ?t \<and>
          misses (ticks HZ rs ?t) = misses ?t"
      using ticks_stopped [OF nr] by blast
    moreover have "misses ?t = 10" by (simp add: t stop_def)
    ultimately show ?thesis
      using True tk by simp
  next
    case False
    with Cons.prems(3) have lt: "sint (misses s) < 9" by simp
    have t: "?t = rearm HZ (s\<lparr>lock_state := r AND 7, misses := misses s + 1\<rparr>)"
      using Cons.prems(1,4) lt sm by (simp add: timerfn_miss MISSES_TO_STOP_def word_sle_eq)
    have g: "game_running ?t" using Cons.prems(1) by (simp add: t rearm_def)
    have m: "misses ?t = misses s + 1" by (simp add: t rearm_def)
    have l: "lock_state ?t \<noteq> 0 \<or> extras ?t \<noteq> 0"
      using Cons.prems(5) by (simp add: t rearm_def)
    have ih: "(int (length rs) < 10 - sint (misses ?t) \<longrightarrow>
            game_running (ticks HZ rs ?t) \<and>
            misses (ticks HZ rs ?t) = misses ?t + of_nat (length rs)) \<and>
         (10 - sint (misses ?t) \<le> int (length rs) \<longrightarrow>
            \<not> game_running (ticks HZ rs ?t) \<and> misses (ticks HZ rs ?t) = 10 \<and>
            lock_state (ticks HZ rs ?t)
              = lock_state (ticks HZ (take (nat (10 - sint (misses ?t))) rs) ?t))"
      using Cons.prems(2,5) lt sm
      by (intro Cons.IH [OF g _ _ l]) (simp_all add: m)
    have nk: "nat (10 - sint (misses s)) = Suc (nat (10 - sint (misses ?t)))"
      using lt Cons.prems(2) by (simp add: m sm)
    show ?thesis
      using ih unfolding nk by (simp add: m sm)
  qed
qed


lemma misses_left:
  fixes x :: "32 word"
  assumes "0 \<le> sint x" and "sint x < 10"
  shows "unat (10 - x) = nat (10 - sint x)"
proof -
  have "10 - x = word_of_int (10 - sint x)"
    by simp
  then have "uint (10 - x) = (10 - sint x) mod 2 ^ 32"
    by (simp only: uint_word_of_int) simp
  also have "\<dots> = 10 - sint x"
    using assms by simp
  finally show ?thesis
    by (simp add: unat_eq_nat_uint)
qed

text \<open>
  C4, as the claim states it, fails: right after a start \<open>lock_state\<close> and \<open>extras\<close>
  are 0, so the first expiry, with no key pressed, counts a hit and leaves \<open>misses\<close>
  at 0. The same happens after every expiry that draws the empty pattern.
\<close>

theorem first_tick_counterexample:
  "game_running (snd (write_keydance_start 100 1 init_state)) \<and>
   misses (keydance_timerfn 100 5 (snd (write_keydance_start 100 1 init_state)))
     \<noteq> misses (snd (write_keydance_start 100 1 init_state)) + 1"
  by code_simp

text \<open>
  C4, amended. Take a reachable state with a game running in which the pattern is not
  empty or \<open>extras\<close> is not 0, and a sequence of consecutive expiries with no key event
  in between, each of which draws a pattern that is not empty. With \<open>k\<close> the number of
  misses left, \<open>MISSES_TO_STOP - misses\<close>: after fewer than \<open>k\<close> expiries the game is
  still running and \<open>misses\<close> has gone up by exactly the number of expiries; from the
  \<open>k\<close>-th expiry on the game is stopped, \<open>misses\<close> is \<open>MISSES_TO_STOP\<close>, and
  \<open>lock_state\<close> is what it was after the \<open>k\<close>-th expiry: no later expiry changes it.
\<close>

theorem misses_grow_until_limit:
  assumes "reachable HZ s" and "game_running s"
    and "lock_state s \<noteq> 0 \<or> extras s \<noteq> 0" and "\<forall>r\<in>set rnds. r AND 7 \<noteq> 0"
  shows "(length rnds < unat (MISSES_TO_STOP - misses s) \<longrightarrow>
            game_running (ticks HZ rnds s) \<and>
            misses (ticks HZ rnds s) = misses s + of_nat (length rnds)) \<and>
         (unat (MISSES_TO_STOP - misses s) \<le> length rnds \<longrightarrow>
            \<not> game_running (ticks HZ rnds s) \<and>
            misses (ticks HZ rnds s) = MISSES_TO_STOP \<and>
            lock_state (ticks HZ rnds s)
              = lock_state (ticks HZ (take (unat (MISSES_TO_STOP - misses s)) rnds) s))"
proof -
  have lo: "0 \<le> sint (misses s)"
    using misses_in_range_reachable [OF assms(1)]
    by (simp add: misses_in_range_def word_sle_eq)
  have hi: "sint (misses s) < 10"
    using below_limits_reachable [OF assms(1)] assms(2)
    by (simp add: below_limits_def word_sless_alt MISSES_TO_STOP_def)
  have k: "unat (10 - misses s) = nat (10 - sint (misses s))"
    using lo hi by (rule misses_left)
  have lt: "length rnds < nat (10 - sint (misses s))
              \<longleftrightarrow> int (length rnds) < 10 - sint (misses s)"
    by linarith
  have le: "nat (10 - sint (misses s)) \<le> length rnds
              \<longleftrightarrow> 10 - sint (misses s) \<le> int (length rnds)"
    by linarith
  show ?thesis
    unfolding MISSES_TO_STOP_def k lt le
    using assms(2) lo hi assms(3) assms(4) by (rule ticks_misses_core)
qed

theorem misses_grow_until_limit_witness:
  "reachable 100 (run 100 [Start 1, Tick 3] init_state) \<and>
   game_running (run 100 [Start 1, Tick 3] init_state) \<and>
   lock_state (run 100 [Start 1, Tick 3] init_state) \<noteq> 0 \<and>
   length [5, 1, 6, 2 :: 8 word]
     < unat (MISSES_TO_STOP - misses (run 100 [Start 1, Tick 3] init_state)) \<and>
   game_running (ticks 100 [5, 1, 6, 2] (run 100 [Start 1, Tick 3] init_state)) \<and>
   misses (ticks 100 [5, 1, 6, 2] (run 100 [Start 1, Tick 3] init_state))
     = misses (run 100 [Start 1, Tick 3] init_state) + of_nat (length [5, 1, 6, 2 :: 8 word]) \<and>
   unat (MISSES_TO_STOP - misses (run 100 [Start 1, Tick 3] init_state))
     \<le> length (replicate 12 (1 :: 8 word)) \<and>
   \<not> game_running (ticks 100 (replicate 12 1) (run 100 [Start 1, Tick 3] init_state)) \<and>
   misses (ticks 100 (replicate 12 1) (run 100 [Start 1, Tick 3] init_state)) = MISSES_TO_STOP"
proof -
  have r: "reachable 100 (run 100 [Start 1, Tick 3] init_state)"
    by (rule reachable_run_init)
  have g: "game_running (run 100 [Start 1, Tick 3] init_state)"
    by code_simp
  have l0: "lock_state (run 100 [Start 1, Tick 3] init_state) \<noteq> 0"
    by code_simp
  then have l: "lock_state (run 100 [Start 1, Tick 3] init_state) \<noteq> 0 \<or>
           extras (run 100 [Start 1, Tick 3] init_state) \<noteq> 0"
    by (rule disjI1)
  have a: "\<forall>r\<in>set [5, 1, 6, 2]. r AND 7 \<noteq> (0 :: 8 word)"
    by simp
  have b: "\<forall>r\<in>set (replicate 12 1). r AND 7 \<noteq> (0 :: 8 word)"
    by simp
  have n: "length [5, 1, 6, 2 :: 8 word]
     < unat (MISSES_TO_STOP - misses (run 100 [Start 1, Tick 3] init_state))"
    by code_simp
  have m: "unat (MISSES_TO_STOP - misses (run 100 [Start 1, Tick 3] init_state))
     \<le> length (replicate 12 (1 :: 8 word))"
    by code_simp
  from misses_grow_until_limit [OF r g l a] misses_grow_until_limit [OF r g l b] r g l0 n m
  show ?thesis by blast
qed


section \<open>The step time\<close>

lemma sint32_id:
  "- (2 ^ 31) \<le> k \<Longrightarrow> k < 2 ^ 31 \<Longrightarrow> sint (word_of_int k :: 32 word) = k"
  by (simp add: sint_sbintrunc' signed_take_bit_int_eq_self)

lemma sint_step_time:
  assumes hz: "5 \<le> sint HZ" "sint HZ \<le> 107374182"
    and l: "0 \<le> sint l" "sint l < 10"
  shows "sint (step_time HZ l) = sint HZ * (20 - 2 * sint l) div 10"
proof -
  have a: "sint (20 - 2 * l) = 20 - 2 * sint l"
  proof -
    have "20 - 2 * l = word_of_int (20 - 2 * sint l)" by simp
    moreover have "sint (word_of_int (20 - 2 * sint l) :: 32 word) = 20 - 2 * sint l"
      using l by (intro sint32_id) simp_all
    ultimately show ?thesis by simp
  qed
  have lo: "0 \<le> sint HZ * (20 - 2 * sint l)"
    using hz l by simp
  have "sint HZ * (20 - 2 * sint l) \<le> 107374182 * 20"
    using hz l by (intro mult_mono) simp_all
  then have hi: "sint HZ * (20 - 2 * sint l) < 2 ^ 31" by simp
  have b: "sint (HZ * (20 - 2 * l)) = sint HZ * (20 - 2 * sint l)"
  proof -
    have "HZ * (20 - 2 * l) = word_of_int (sint HZ * (20 - 2 * sint l))" by simp
    moreover have "sint (word_of_int (sint HZ * (20 - 2 * sint l)) :: 32 word)
        = sint HZ * (20 - 2 * sint l)"
      using lo hi by (intro sint32_id) simp_all
    ultimately show ?thesis by simp
  qed
  have c: "sint HZ * (20 - 2 * sint l) sdiv 10 = sint HZ * (20 - 2 * sint l) div 10"
    using lo by (simp add: signed_divide_int_def sgn_if)
  have d: "sint HZ * (20 - 2 * sint l) div 10 < 2 ^ 31"
    using hi lo by simp
  have e: "0 \<le> sint HZ * (20 - 2 * sint l) div 10"
    using lo by simp
  show ?thesis
    unfolding step_time_def c_div_def b
    using d e by (simp add: c sint32_id)
qed


lemma step_time_int_less:
  fixes h a b :: int
  assumes "5 \<le> h" and "0 \<le> a" and "a < b" and "b < 10"
  shows "h * (20 - 2 * b) div 10 < h * (20 - 2 * a) div 10"
    and "0 < h * (20 - 2 * b) div 10"
proof -
  have "h * 2 \<le> h * (2 * (b - a))"
    using assms by (intro mult_left_mono) simp_all
  then have "h * (20 - 2 * b) + 10 \<le> h * (20 - 2 * a)"
    using assms(1) by (simp add: algebra_simps)
  then have "(h * (20 - 2 * b) + 10) div 10 \<le> h * (20 - 2 * a) div 10"
    by (rule zdiv_mono1) simp
  then show "h * (20 - 2 * b) div 10 < h * (20 - 2 * a) div 10"
    by simp
  have "5 * 2 \<le> h * (20 - 2 * b)"
    using assms by (intro mult_mono) simp_all
  then have "10 \<le> h * (20 - 2 * b)"
    by simp
  then have "10 div 10 \<le> h * (20 - 2 * b) div 10"
    by (rule zdiv_mono1) simp
  then show "0 < h * (20 - 2 * b) div 10"
    by simp
qed

text \<open>
  C8. For a kernel with \<open>5 \<le> HZ\<close> (and \<open>HZ\<close> small enough for \<open>20 * HZ\<close> to fit an
  \<open>int\<close>; every configurable tick rate is between these), \<open>step_time\<close> is strictly
  decreasing over the levels 0 to \<open>LEVEL_TO_STOP - 1\<close>, the levels at which the timer
  is armed, and strictly greater than 0 at each of them.
\<close>

theorem step_time_strictly_decreasing:
  assumes "5 \<le>s HZ" and "HZ \<le>s 107374182"
    and "0 \<le>s l" and "l <s l'" and "l' <s LEVEL_TO_STOP"
  shows "step_time HZ l' <s step_time HZ l \<and> 0 <s step_time HZ l' \<and> 0 <s step_time HZ l"
proof -
  have hz: "5 \<le> sint HZ" "sint HZ \<le> 107374182"
    using assms(1,2) by (simp_all add: word_sle_eq)
  have a: "0 \<le> sint l" "sint l < sint l'" "sint l' < 10"
    using assms(3,4,5) by (simp_all add: word_sle_eq word_sless_alt LEVEL_TO_STOP_def)
  have sl: "sint (step_time HZ l) = sint HZ * (20 - 2 * sint l) div 10"
    using hz a by (intro sint_step_time) simp_all
  have sl': "sint (step_time HZ l') = sint HZ * (20 - 2 * sint l') div 10"
    using hz a by (intro sint_step_time) simp_all
  have "sint (step_time HZ l') < sint (step_time HZ l)"
    unfolding sl sl' using hz(1) a by (rule step_time_int_less(1))
  moreover have "0 < sint (step_time HZ l')"
    unfolding sl' using hz(1) a by (rule step_time_int_less(2))
  ultimately show ?thesis
    by (simp add: word_sless_alt)
qed

theorem step_time_strictly_decreasing_witness:
  "(5 :: 32 word) \<le>s 100 \<and> (100 :: 32 word) \<le>s 107374182 \<and>
   (0 :: 32 word) \<le>s 8 \<and> (8 :: 32 word) <s 9 \<and> 9 <s LEVEL_TO_STOP \<and>
   step_time 100 9 <s step_time 100 8 \<and> 0 <s step_time 100 9 \<and> 0 <s step_time 100 8"
proof -
  have h: "(5 :: 32 word) \<le>s 100" "(100 :: 32 word) \<le>s 107374182"
    by simp_all
  have l: "(0 :: 32 word) \<le>s 8" "(8 :: 32 word) <s 9" "9 <s LEVEL_TO_STOP"
    by (simp_all add: LEVEL_TO_STOP_def word_sle_eq)
  from step_time_strictly_decreasing [OF h l] h l show ?thesis by blast
qed


section \<open>Switching the LEDs takes bounded time\<close>

declare wait_ibf.simps [simp del]

lemma wait_ibf_gives_up:
  "delay \<le> 10 \<Longrightarrow> wait_ibf ibf status delay n = Inl (r, n') \<Longrightarrow>
   r = 11 \<and> int n' = int n + (11 - delay)"
proof (induction ibf status delay n rule: wait_ibf.induct)
  case (1 ibf status delay n)
  show ?case
  proof (cases "status n AND ibf \<noteq> 0")
    case busy: True
    show ?thesis
    proof (cases "delay + 1 > 10")
      case True
      with busy "1.prems" show ?thesis
        by (simp add: wait_ibf.simps [of ibf status delay n])
    next
      case False
      with busy "1.prems" have "wait_ibf ibf status (delay + 1) (n + 1) = Inl (r, n')"
        by (simp add: wait_ibf.simps [of ibf status delay n])
      with "1.IH" [OF busy False] False show ?thesis
        by simp
    qed
  next
    case False
    with "1.prems" show ?thesis
      by (simp add: wait_ibf.simps [of ibf status delay n])
  qed
qed

lemma wait_ibf_leaves:
  "delay \<le> 10 \<Longrightarrow> wait_ibf ibf status delay n = Inr (d', n') \<Longrightarrow>
   delay \<le> d' \<and> d' \<le> 10 \<and> int n' = int n + (d' - delay) + 1"
proof (induction ibf status delay n rule: wait_ibf.induct)
  case (1 ibf status delay n)
  show ?case
  proof (cases "status n AND ibf \<noteq> 0")
    case busy: True
    show ?thesis
    proof (cases "delay + 1 > 10")
      case True
      with busy "1.prems" show ?thesis
        by (simp add: wait_ibf.simps [of ibf status delay n])
    next
      case False
      with busy "1.prems" have "wait_ibf ibf status (delay + 1) (n + 1) = Inr (d', n')"
        by (simp add: wait_ibf.simps [of ibf status delay n])
      with "1.IH" [OF busy False] False show ?thesis
        by simp
    qed
  next
    case False
    with "1.prems" show ?thesis
      by (simp add: wait_ibf.simps [of ibf status delay n])
  qed
qed

text \<open>
  C9. \<open>i8042_led_blink\<close> returns for every device, that is for every function from
  the number of a read to the status it returns, the one that is busy for ever
  included: \<open>wait_ibf\<close> is a total function, its recursion ends because \<open>delay\<close> grows
  towards 10. The value returned is at least 3 and at most 11, and the status register
  is read at most 11 times.
\<close>

theorem led_blink_bounded:
  "3 \<le> elapsed (i8042_led_blink ibf status state) \<and>
   elapsed (i8042_led_blink ibf status state) \<le> 11 \<and>
   reads (i8042_led_blink ibf status state) \<le> 11"
proof (cases "wait_ibf ibf status 0 0")
  case (Inl a)
  then obtain r n where w1: "wait_ibf ibf status 0 0 = Inl (r, n)"
    by (cases a) simp
  from wait_ibf_gives_up [OF _ w1] have "r = 11" "n = 11" by simp_all
  with w1 show ?thesis by (simp add: i8042_led_blink_def)
next
  case (Inr b)
  then obtain d1 n1 where w1: "wait_ibf ibf status 0 0 = Inr (d1, n1)"
    by (cases b) simp
  from wait_ibf_leaves [OF _ w1] have d1: "0 \<le> d1" "d1 \<le> 10" "int n1 = d1 + 1" by simp_all
  show ?thesis
  proof (cases "d1 = 10")
    case True
    with w1 d1 show ?thesis by (simp add: i8042_led_blink_def DELAY_def)
  next
    case False
    with d1 have d2: "d1 + 1 \<le> 10" by simp
    then have D1: "DELAY d1 = Inr (d1 + 1)" by (simp add: DELAY_def)
    show ?thesis
    proof (cases "wait_ibf ibf status (d1 + 1) n1")
      case (Inl a)
      then obtain r n where w2: "wait_ibf ibf status (d1 + 1) n1 = Inl (r, n)"
        by (cases a) simp
      from wait_ibf_gives_up [OF d2 w2] d1 have "r = 11" "n = 11" by simp_all
      with w1 w2 D1 show ?thesis by (simp add: i8042_led_blink_def)
    next
      case (Inr b)
      then obtain d3 n2 where w2: "wait_ibf ibf status (d1 + 1) n1 = Inr (d3, n2)"
        by (cases b) simp
      from wait_ibf_leaves [OF d2 w2] d1
      have d3: "1 \<le> d3" "d3 \<le> 10" "int n2 = d3 + 1" by simp_all
      then have n2: "n2 \<le> 11" by simp
      from d3 n2 w1 w2 D1 show ?thesis
        by (simp add: i8042_led_blink_def DELAY_def)
    qed
  qed
qed


section \<open>Accesses outside the lock\<close>

lemma timerfn_under_lock: "under_lock False (keydance_timerfn_accesses s)"
  by (simp add: keydance_timerfn_accesses_def stop_accesses_def rearm_accesses_def)

lemma threadfn_under_lock: "under_lock False (keydance_threadfn_accesses data s)"
  by (simp add: keydance_threadfn_accesses_def Let_def)

text \<open>
  C5. The claim fails on the code. The timer function and the IRQ thread touch the
  variables only between taking and releasing \<open>keydance_lock\<close> (the two lemmas above).
  \<open>write_keydance_start\<close> never takes the lock: a write of one byte while no game is
  running reads \<open>game_running\<close> and then writes \<open>lock_state\<close>, \<open>extras\<close>, \<open>misses\<close>,
  \<open>hits\<close>, \<open>level\<close> and \<open>game_running\<close> with the lock not held. Neither does
  \<open>keydance_result_proc_show\<close>.
\<close>

theorem start_writes_without_lock:
  "write_keydance_start_accesses 1 init_state =
     [Rd V_game_running, Wr V_lock_state, Rd V_lock_state, Wr V_extras, Wr V_misses,
      Wr V_hits, Wr V_level, Wr V_game_running, Rd V_level] \<and>
   \<not> under_lock False (write_keydance_start_accesses 1 init_state) \<and>
   \<not> under_lock False (keydance_result_proc_show_accesses init_state)"
  by (simp add: write_keydance_start_accesses_def keydance_result_proc_show_accesses_def
      init_state_def)

end
